theory Spec2Isabelle
  imports Main
begin

section \<open>Text: characters, whitespace, case folding\<close>

text \<open>
  The program works on Python \<^verbatim>\<open>str\<close> values. A string is modelled as a list of
  8-bit characters, each read as the code point of the same number (U+0000 to U+00FF).
  The character classes below are the ones Python uses for these code points:
  \<^verbatim>\<open>\d\<close> is the ten ASCII digits, \<^verbatim>\<open>\s\<close> and \<^verbatim>\<open>str.strip\<close> share one whitespace set,
  and lower-casing shifts the ASCII and Latin-1 capital letters by 32.
\<close>

definition is_digit :: "char \<Rightarrow> bool" where
  "is_digit c = (c \<in> set ''0123456789'')"

definition is_space :: "char \<Rightarrow> bool" where
  "is_space c = (c \<in> set [CHR 0x09, CHR 0x0A, CHR 0x0B, CHR 0x0C, CHR 0x0D,
                            CHR 0x1C, CHR 0x1D, CHR 0x1E, CHR 0x1F, CHR 0x20,
                            CHR 0x85, CHR 0xA0])"

definition lower_char :: "char \<Rightarrow> char" where
  "lower_char c =
     (let n = (of_char c :: nat)
      in if (65 \<le> n \<and> n \<le> 90) \<or> (192 \<le> n \<and> n \<le> 222 \<and> n \<noteq> 215)
         then char_of (n + 32) else c)"

definition str_lower :: "string \<Rightarrow> string" where
  "str_lower s = map lower_char s"

definition str_strip :: "string \<Rightarrow> string" where
  "str_strip s = rev (dropWhile is_space (rev (dropWhile is_space s)))"

section \<open>Regular expressions as the program uses them\<close>

text \<open>
  The two patterns of \<^verbatim>\<open>scrape_page\<close> are compiled with \<^verbatim>\<open>re.IGNORECASE\<close>. They are
  built from literals, the classes \<^verbatim>\<open>\d\<close> and \<^verbatim>\<open>\s\<close> under the greedy repetitions
  \<^verbatim>\<open>*\<close> and \<^verbatim>\<open>+\<close>, the greedy option \<^verbatim>\<open>?\<close>, alternation, numbered groups and the
  anchors \<^verbatim>\<open>^\<close> and \<^verbatim>\<open>$\<close>. The matcher returns every way a pattern can match at a
  position, in the order a backtracking matcher tries them; the first one is the match
  Python reports.
\<close>

datatype cls = Digit | Space

datatype rx =
    Lit string
  | Star cls
  | Plus cls
  | Opt rx
  | Seq rx rx
  | Alt rx rx
  | Empty
  | Group nat rx
  | Bol
  | Eol

text \<open>A matcher state: the position in the line, the text from there on, the groups
  captured so far.\<close>

type_synonym groups = "nat \<rightharpoonup> string"
type_synonym mstate = "nat \<times> string \<times> groups"

fun in_cls :: "cls \<Rightarrow> char \<Rightarrow> bool" where
  "in_cls Digit c = is_digit c"
| "in_cls Space c = is_space c"

fun lit_ci :: "string \<Rightarrow> string \<Rightarrow> string option" where
  "lit_ci [] s = Some s"
| "lit_ci (p # ps) [] = None"
| "lit_ci (p # ps) (c # cs) = (if lower_char p = lower_char c then lit_ci ps cs else None)"

text \<open>The remainders after a greedy repetition of a class: the longest run first, then
  each shorter one, the empty run last.\<close>

fun star_rests :: "cls \<Rightarrow> string \<Rightarrow> string list" where
  "star_rests k [] = [[]]"
| "star_rests k (c # cs) = (if in_cls k c then star_rests k cs @ [c # cs] else [c # cs])"

fun ms :: "rx \<Rightarrow> mstate \<Rightarrow> mstate list" where
  "ms (Lit p) (i, s, g) =
     (case lit_ci p s of Some r \<Rightarrow> [(i + length p, r, g)] | None \<Rightarrow> [])"
| "ms (Star k) (i, s, g) =
     map (\<lambda>r. (i + (length s - length r), r, g)) (star_rests k s)"
| "ms (Plus k) (i, s, g) =
     map (\<lambda>r. (i + (length s - length r), r, g)) (butlast (star_rests k s))"
| "ms (Opt r) st = ms r st @ [st]"
| "ms (Seq a b) st = concat (map (ms b) (ms a st))"
| "ms (Alt a b) st = ms a st @ ms b st"
| "ms Empty st = [st]"
| "ms (Group n r) (i, s, g) =
     map (\<lambda>(j, s', g'). (j, s', g'(n \<mapsto> take (j - i) s))) (ms r (i, s, g))"
| "ms Bol (i, s, g) = (if i = 0 then [(i, s, g)] else [])"
| "ms Eol (i, s, g) = (if s = [] \<or> s = [CHR 0x0A] then [(i, s, g)] else [])"

text \<open>\<^verbatim>\<open>pattern.match(line)\<close> tries position 0 only; \<^verbatim>\<open>pattern.search(line)\<close> tries
  every position from the left, the end of the line included. Both return the groups of
  the match, or nothing.\<close>

definition re_match :: "rx \<Rightarrow> string \<Rightarrow> groups option" where
  "re_match r s = (case ms r (0, s, Map.empty) of [] \<Rightarrow> None | (_, _, g) # _ \<Rightarrow> Some g)"

fun search_from :: "rx \<Rightarrow> nat \<Rightarrow> string \<Rightarrow> groups option" where
  "search_from r i [] =
     (case ms r (i, [], Map.empty) of [] \<Rightarrow> None | (_, _, g) # _ \<Rightarrow> Some g)"
| "search_from r i (c # cs) =
     (case ms r (i, c # cs, Map.empty) of
        [] \<Rightarrow> search_from r (Suc i) cs
      | (_, _, g) # _ \<Rightarrow> Some g)"

definition re_search :: "rx \<Rightarrow> string \<Rightarrow> groups option" where
  "re_search r s = search_from r 0 s"

text \<open>The currency marker \<^verbatim>\<open>L\.?E\.?\<close>.\<close>

definition currency :: rx where
  "currency = Seq (Lit ''L'') (Seq (Opt (Lit ''.'')) (Seq (Lit ''E'') (Opt (Lit ''.''))))"

text \<open>\<^verbatim>\<open>(Price\s*:\s*|)(\d+)\s*(L\.?E\.?)\<close>\<close>

definition price_pattern :: rx where
  "price_pattern =
     Seq (Group 1 (Alt (Seq (Lit ''Price'') (Seq (Star Space) (Seq (Lit '':'') (Star Space)))) Empty))
    (Seq (Group 2 (Plus Digit))
    (Seq (Star Space)
         (Group 3 currency)))"

text \<open>\<^verbatim>\<open>^(\d+)\s*(L\.?E\.?)\.?$\<close>\<close>

definition price_only_pattern :: rx where
  "price_only_pattern =
     Seq Bol
    (Seq (Group 1 (Plus Digit))
    (Seq (Star Space)
    (Seq (Group 2 currency)
    (Seq (Opt (Lit ''.''))
         Eol))))"

section \<open>The item segmenter (the loop of \<^verbatim>\<open>scrape_page\<close> over one panel's lines)\<close>

text \<open>\<^verbatim>\<open>current_item\<close> is a dictionary that only ever holds the keys \<^verbatim>\<open>name\<close>,
  \<^verbatim>\<open>description\<close> and \<^verbatim>\<open>price\<close>: a record of three optional fields, a missing key
  being \<open>None\<close>. The empty dictionary is the record with no field set, and it is the only
  dictionary Python takes as false.\<close>

record item =
  name :: "string option"
  description :: "string option"
  price :: "string option"

definition empty_item :: item where
  "empty_item = \<lparr>name = None, description = None, price = None\<rparr>"

fun truthy :: "item \<Rightarrow> bool" where
  "truthy it = (it \<noteq> empty_item)"

fun matched :: "groups option \<Rightarrow> bool" where
  "matched None = False"
| "matched (Some m) = True"

fun has_key :: "string option \<Rightarrow> bool" where
  "has_key None = False"
| "has_key (Some v) = True"

fun get_or :: "string option \<Rightarrow> string \<Rightarrow> string" where
  "get_or None d = d"
| "get_or (Some v) d = v"

text \<open>The exceptions that can leave the code modelled here. \<^verbatim>\<open>m.group(n)\<close> is \<open>None\<close>
  for a group that took no part in the match, and \<^verbatim>\<open>None + " L.E"\<close> raises
  \<^verbatim>\<open>TypeError\<close>; the browser driver raises \<^verbatim>\<open>WebDriverException\<close>; the interpreter
  raises \<^verbatim>\<open>RecursionError\<close> when calls nest deeper than its limit.\<close>

datatype error = TypeError | WebDriverException | RecursionError

text \<open>The state of the loop: \<^verbatim>\<open>items\<close>, the items emitted so far, and
  \<^verbatim>\<open>current_item\<close>. \<open>step\<close> is one pass of the loop body (lines 167 to 187) on the line
  at index \<^verbatim>\<open>i\<close>; every branch moves on to the next line, so the loop is a recursion over
  the list of lines.\<close>

type_synonym seg_state = "item list \<times> item"

definition step :: "seg_state \<Rightarrow> string \<Rightarrow> error + seg_state" where
  "step st line =
     (let items = fst st; current_item = snd st;
          price_match = re_search price_pattern line;
          price_only_match = re_match price_only_pattern line
      in if matched price_match \<or> matched price_only_match then
           (let price = (case price_match of
                           Some m \<Rightarrow> m 2
                         | None \<Rightarrow> (case price_only_match of Some m \<Rightarrow> m 1 | None \<Rightarrow> None))
            in if truthy current_item then
                 (case price of
                    None \<Rightarrow> Inl TypeError
                  | Some p \<Rightarrow>
                      Inr (items @ [current_item\<lparr>price := Some (p @ '' L.E'')\<rparr>], empty_item))
               else Inr (items, current_item))
         else if has_key (name current_item) \<and> \<not> has_key (price current_item) then
           Inr (items,
                current_item\<lparr>description :=
                  Some (get_or (description current_item) [] @ '' '' @ line)\<rparr>)
         else if str_lower line \<notin> set [''price'', ''l.e'', ''le''] then
           Inr (items, \<lparr>name = Some line, description = None, price = None\<rparr>)
         else Inr (items, current_item))"

fun seg_loop :: "string list \<Rightarrow> seg_state \<Rightarrow> error + seg_state" where
  "seg_loop [] st = Inr st"
| "seg_loop (line # lines) st =
     (case step st line of Inl e \<Rightarrow> Inl e | Inr st' \<Rightarrow> seg_loop lines st')"

text \<open>Lines 159 to 190: the loop from the empty dictionary, then the flush of a pending
  item that has a price.\<close>

definition segment :: "string list \<Rightarrow> error + item list" where
  "segment lines =
     (case seg_loop lines ([], empty_item) of
        Inl e \<Rightarrow> Inl e
      | Inr (items, current_item) \<Rightarrow>
          Inr (if truthy current_item \<and> has_key (price current_item)
               then items @ [current_item] else items))"

text \<open>The test of line 171: one of the two patterns matched the line.\<close>

definition is_price_line :: "string \<Rightarrow> bool" where
  "is_price_line line =
     (matched (re_search price_pattern line) \<or> matched (re_match price_only_pattern line))"

text \<open>Lines 192 to 198: the row appended for an item, a missing key read as the empty
  string.\<close>

definition menu_row :: "string \<Rightarrow> item \<Rightarrow> string list" where
  "menu_row category_name it =
     [category_name, get_or (name it) [], get_or (description it) [], get_or (price it) []]"

section \<open>Parsed pages\<close>

text \<open>
  A page is the tree that \<^verbatim>\<open>BeautifulSoup(markup, "html.parser")\<close> builds: a tag has a
  name, its attributes and its contents; a \<^verbatim>\<open>NavigableString\<close> is a piece of text that
  \<^verbatim>\<open>get_text\<close> collects. The document itself is the tag at the root. The functions below
  are the library calls the program makes: \<^verbatim>\<open>find_all\<close> and \<^verbatim>\<open>find\<close> walk the descendants
  in document order, the \<^verbatim>\<open>class\<close> attribute is a list of whitespace-separated tokens of
  which one has to equal the class asked for, and a tag always counts as true.
\<close>

datatype node = Tag string "(string \<times> string) list" "node list" | NavigableString string

fun descendants :: "node \<Rightarrow> node list" where
  "descendants (Tag t attrs contents) = concat (map (\<lambda>c. c # descendants c) contents)"
| "descendants (NavigableString s) = []"

fun tag_named :: "string list \<Rightarrow> node \<Rightarrow> bool" where
  "tag_named names (Tag t attrs contents) = (t \<in> set names)"
| "tag_named names (NavigableString s) = False"

fun attr :: "node \<Rightarrow> string \<Rightarrow> string option" where
  "attr (Tag t attrs contents) k = map_of attrs k"
| "attr (NavigableString s) k = None"

definition split_ws :: "string \<Rightarrow> string list" where
  "split_ws s =
     filter (\<lambda>w. w \<noteq> [])
       (foldr (\<lambda>c acc. if is_space c then [] # acc else (c # hd acc) # tl acc) s [[]])"

definition has_class :: "string \<Rightarrow> node \<Rightarrow> bool" where
  "has_class c n = (case attr n ''class'' of None \<Rightarrow> False | Some v \<Rightarrow> c \<in> set (split_ws v))"

definition find_all :: "string list \<Rightarrow> node \<Rightarrow> node list" where
  "find_all names soup = filter (tag_named names) (descendants soup)"

definition find_all_class :: "string \<Rightarrow> string \<Rightarrow> node \<Rightarrow> node list" where
  "find_all_class t c soup = filter (\<lambda>n. tag_named [t] n \<and> has_class c n) (descendants soup)"

definition find_class :: "string \<Rightarrow> string \<Rightarrow> node \<Rightarrow> node option" where
  "find_class t c soup = (case find_all_class t c soup of [] \<Rightarrow> None | n # _ \<Rightarrow> Some n)"

fun node_string :: "node \<Rightarrow> string list" where
  "node_string (Tag t attrs contents) = []"
| "node_string (NavigableString s) = [s]"

fun join :: "string \<Rightarrow> string list \<Rightarrow> string" where
  "join sep [] = []"
| "join sep [x] = x"
| "join sep (x # y # ys) = x @ sep @ join sep (y # ys)"

definition get_text :: "string \<Rightarrow> node \<Rightarrow> string" where
  "get_text sep n = join sep (concat (map node_string (descendants n)))"

text \<open>\<^verbatim>\<open>str.splitlines\<close>: a line ends at a line boundary, \<^verbatim>\<open>\r\n\<close> counting as one,
  and text after the last boundary is a line only when it is not empty.\<close>

definition is_linebreak :: "char \<Rightarrow> bool" where
  "is_linebreak c = (c \<in> set [CHR 0x0A, CHR 0x0B, CHR 0x0C, CHR 0x0D,
                                CHR 0x1C, CHR 0x1D, CHR 0x1E, CHR 0x85])"

fun splitlines_from :: "bool \<Rightarrow> string \<Rightarrow> string \<Rightarrow> string list" where
  "splitlines_from after_cr cur [] = (if cur = [] then [] else [rev cur])"
| "splitlines_from after_cr cur (c # cs) =
     (if after_cr \<and> c = CHR 0x0A then splitlines_from False cur cs
      else if is_linebreak c then rev cur # splitlines_from (c = CHR 0x0D) [] cs
      else splitlines_from False (c # cur) cs)"

definition splitlines :: "string \<Rightarrow> string list" where
  "splitlines s = splitlines_from False [] s"

section \<open>The JavaScript-heaviness detector\<close>

definition is_javascript_heavy :: "node \<Rightarrow> bool" where
  "is_javascript_heavy soup =
     (let scripts = find_all [''script''] soup
      in if length scripts > 10 then True
         else if find_all [''div'', ''p'', ''span'', ''table''] soup = [] then True
         else False)"

section \<open>The crawl (\<^verbatim>\<open>scrape_menu\<close>)\<close>

text \<open>Line 158: the lines of a panel body, stripped, the empty ones left out.\<close>

definition body_lines :: "node \<Rightarrow> string list" where
  "body_lines body =
     map str_strip (filter (\<lambda>line. str_strip line \<noteq> []) (splitlines (get_text ''\<newline>'' body)))"

text \<open>Lines 149 to 198: one panel. \<^verbatim>\<open>rows\<close> is the list of the enclosing function, which
  the panel appends to; a panel with no body is skipped.\<close>

definition scrape_panel :: "node \<Rightarrow> string list list \<Rightarrow> error + string list list" where
  "scrape_panel panel rows =
     (let heading = find_class ''div'' ''vc_tta-panel-heading'' panel;
          title_span = (case heading of
                          Some h \<Rightarrow> find_class ''span'' ''vc_tta-title-text'' h
                        | None \<Rightarrow> None);
          category_name = (case title_span of
                             Some t \<Rightarrow> str_strip (get_text [] t)
                           | None \<Rightarrow> ''Unnamed Category'');
          body = find_class ''div'' ''vc_tta-panel-body'' panel
      in case body of
           None \<Rightarrow> Inr rows
         | Some b \<Rightarrow>
             (case segment (body_lines b) of
                Inl e \<Rightarrow> Inl e
              | Inr items \<Rightarrow> Inr (rows @ map (menu_row category_name) items)))"

fun scrape_panels :: "node list \<Rightarrow> string list list \<Rightarrow> error + string list list" where
  "scrape_panels [] rows = Inr rows"
| "scrape_panels (panel # panels) rows =
     (case scrape_panel panel rows of
        Inl e \<Rightarrow> Inl e
      | Inr rows' \<Rightarrow> scrape_panels panels rows')"

definition next_page_url :: "node \<Rightarrow> string option" where
  "next_page_url soup =
     (case find_class ''a'' ''next'' soup of
        None \<Rightarrow> None
      | Some next_link \<Rightarrow>
          (case attr next_link ''href'' of
             None \<Rightarrow> None
           | Some href \<Rightarrow> if href \<noteq> [] then Some href else None))"

text \<open>
  The outside world is a state \<open>'w\<close> that every fetch reads and changes.
  \<^verbatim>\<open>session.get(url, timeout=10)\<close> returns a response, given here with its status code and
  its content already parsed, or raises \<^verbatim>\<open>requests.RequestException\<close>. The rendering branch
  of \<^verbatim>\<open>get_soup\<close> (lines 121 to 129: start the browser, load the page, wait, read the page
  source, quit, parse) returns the parsed page or raises; nothing in that branch catches an
  exception. The messages written to the display are left out.
\<close>

datatype http_result = Response nat node | RequestException

definition get_soup ::
  "('w \<Rightarrow> string \<Rightarrow> http_result \<times> 'w) \<Rightarrow> ('w \<Rightarrow> string \<Rightarrow> (error + node) \<times> 'w) \<Rightarrow> bool
     \<Rightarrow> 'w \<Rightarrow> string \<Rightarrow> (error + node option) \<times> 'w" where
  "get_soup session_get render use_selenium w url =
     (if use_selenium then
        (case render w url of
           (Inl e, w') \<Rightarrow> (Inl e, w')
         | (Inr html, w') \<Rightarrow> (Inr (Some html), w'))
      else
        (case session_get w url of
           (Response status_code content, w') \<Rightarrow>
             if status_code \<noteq> 200 then (Inr None, w') else (Inr (Some content), w')
         | (RequestException, w') \<Rightarrow> (Inr None, w')))"

text \<open>\<^verbatim>\<open>scrape_page\<close> calls itself for the next page. \<open>depth\<close> is the number of nested
  calls the interpreter still allows; at 0 the call raises \<^verbatim>\<open>RecursionError\<close>. An exception
  leaves \<^verbatim>\<open>scrape_menu\<close> without a result, so the rows collected so far are lost with
  it.\<close>

fun scrape_page ::
  "('w \<Rightarrow> string \<Rightarrow> http_result \<times> 'w) \<Rightarrow> ('w \<Rightarrow> string \<Rightarrow> (error + node) \<times> 'w) \<Rightarrow> bool
     \<Rightarrow> nat \<Rightarrow> 'w \<times> string list list \<Rightarrow> string \<Rightarrow> error + 'w \<times> string list list" where
  "scrape_page session_get render use_selenium 0 (w, rows) url = Inl RecursionError"
| "scrape_page session_get render use_selenium (Suc depth) (w, rows) url =
     (case get_soup session_get render use_selenium w url of
        (Inl e, w') \<Rightarrow> Inl e
      | (Inr None, w') \<Rightarrow> Inr (w', rows)
      | (Inr (Some soup), w') \<Rightarrow>
          (case scrape_panels (find_all_class ''div'' ''vc_tta-panel'' soup) rows of
             Inl e \<Rightarrow> Inl e
           | Inr rows' \<Rightarrow>
               (case next_page_url soup of
                  Some next_url \<Rightarrow>
                    scrape_page session_get render use_selenium depth (w', rows') next_url
                | None \<Rightarrow> Inr (w', rows'))))"

definition scrape_menu ::
  "('w \<Rightarrow> string \<Rightarrow> http_result \<times> 'w) \<Rightarrow> ('w \<Rightarrow> string \<Rightarrow> (error + node) \<times> 'w) \<Rightarrow> nat
     \<Rightarrow> 'w \<Rightarrow> string \<Rightarrow> bool \<Rightarrow> error + string list list" where
  "scrape_menu session_get render recursion_limit w base_url use_selenium =
     (case scrape_page session_get render use_selenium recursion_limit (w, []) base_url of
        Inl e \<Rightarrow> Inl e
      | Inr (w', rows) \<Rightarrow> Inr rows)"

text \<open>A fetch that \<^verbatim>\<open>get_soup\<close> reports as failed on the plain path: a status other than
  200, or a \<^verbatim>\<open>RequestException\<close>.\<close>

fun fetch_failed :: "http_result \<Rightarrow> bool" where
  "fetch_failed (Response status_code content) = (status_code \<noteq> 200)"
| "fetch_failed RequestException = True"

section \<open>The crawlability score\<close>

definition calculate_crawlability_score :: "bool \<Rightarrow> string list \<Rightarrow> string list \<Rightarrow> bool \<Rightarrow> int" where
  "calculate_crawlability_score has_robots crawl_delays sitemaps js_heavy =
     (let score = 0;
          score = (if has_robots then score + 25 else score);
          score = (if crawl_delays \<noteq> [] then score + 15 else score);
          score = (if sitemaps \<noteq> [] then score + 30 else score);
          score = (if \<not> js_heavy then score + 30 else score)
      in score)"

section \<open>Example pages and sites\<close>

text \<open>A page with one category panel holding one item, and a link to the next page
  \<^verbatim>\<open>p2\<close>.\<close>

definition example_page :: node where
  "example_page = Tag ''[document]'' []
     [Tag ''div'' [(''class'', ''vc_tta-panel'')]
        [Tag ''div'' [(''class'', ''vc_tta-panel-heading'')]
           [Tag ''span'' [(''class'', ''vc_tta-title-text'')] [NavigableString '' Soups '']],
         Tag ''div'' [(''class'', ''vc_tta-panel-body'')]
           [Tag ''p'' [] [NavigableString ''Lentil''], NavigableString ''40 L.E'']],
      Tag ''a'' [(''class'', ''next page-numbers''), (''href'', ''p2'')]
        [NavigableString ''Next'']]"

text \<open>A site that serves \<open>example_page\<close> at \<^verbatim>\<open>p1\<close> and answers 404 everywhere else; a
  site that cannot be reached; a browser driver that fails. Each counts the fetches made.\<close>

definition example_web :: "nat \<Rightarrow> string \<Rightarrow> http_result \<times> nat" where
  "example_web w url =
     (if url = ''p1'' then Response 200 example_page
      else Response 404 (Tag ''[document]'' [] []), Suc w)"

definition unreachable_web :: "nat \<Rightarrow> string \<Rightarrow> http_result \<times> nat" where
  "unreachable_web w url = (RequestException, Suc w)"

definition failing_driver :: "nat \<Rightarrow> string \<Rightarrow> (error + node) \<times> nat" where
  "failing_driver w url = (Inl WebDriverException, Suc w)"

text \<open>A page with exactly ten \<^verbatim>\<open>script\<close> elements and one \<^verbatim>\<open>div\<close>.\<close>

definition ten_scripts_page :: node where
  "ten_scripts_page =
     Tag ''[document]'' [] (replicate 10 (Tag ''script'' [] []) @ [Tag ''div'' [] []])"

section \<open>Notions used in the proofs\<close>

text \<open>The group numbers a pattern can set.\<close>

fun gids :: "rx \<Rightarrow> nat set" where
  "gids (Group n r) = insert n (gids r)"
| "gids (Opt r) = gids r"
| "gids (Seq a b) = gids a \<union> gids b"
| "gids (Alt a b) = gids a \<union> gids b"
| "gids r = {}"


text \<open>The invariant of the segmenter loop over lines taken from \<open>A\<close>: an emitted item has
  a name from \<open>A\<close> and a price made of digits and the currency suffix; the pending item
  has no price and is either empty or carries a name from \<open>A\<close>.\<close>

definition complete_item :: "string set \<Rightarrow> item \<Rightarrow> bool" where
  "complete_item A it =
     (\<exists>n d. name it = Some n \<and> n \<in> A \<and> price it = Some (d @ '' L.E'')
            \<and> d \<noteq> [] \<and> list_all is_digit d)"

definition pending_ok :: "string set \<Rightarrow> item \<Rightarrow> bool" where
  "pending_ok A cur = (price cur = None \<and> (cur = empty_item \<or> (\<exists>n. name cur = Some n \<and> n \<in> A)))"


section \<open>What a match captures\<close>

lemma star_rests_split:
  "r \<in> set (star_rests k s) \<Longrightarrow> \<exists>p. s = p @ r \<and> list_all (in_cls k) p"
proof (induction k s rule: star_rests.induct)
  case (1 k)
  then show ?case by simp
next
  case (2 k c cs)
  show ?case
  proof (cases "r = c # cs")
    case True
    then have "c # cs = [] @ r \<and> list_all (in_cls k) []" by simp
    then show ?thesis by blast
  next
    case False
    with 2 have k: "in_cls k c" and "r \<in> set (star_rests k cs)"
      by (auto split: if_splits)
    with 2 obtain p where "cs = p @ r" "list_all (in_cls k) p" by auto
    with k have "c # cs = (c # p) @ r \<and> list_all (in_cls k) (c # p)" by simp
    then show ?thesis by blast
  qed
qed

lemma star_rests_length: "r \<in> set (butlast (star_rests k s)) \<Longrightarrow> length r < length s"
proof (induction k s rule: star_rests.induct)
  case (1 k)
  then show ?case by simp
next
  case (2 k c cs)
  then have k: "in_cls k c" and r: "r \<in> set (star_rests k cs)"
    by (auto split: if_splits simp: butlast_append)
  from star_rests_split[OF r] show ?case by auto
qed

lemma plus_rests_split:
  assumes "r \<in> set (butlast (star_rests k s))"
  shows "\<exists>p. s = p @ r \<and> p \<noteq> [] \<and> list_all (in_cls k) p"
proof -
  from assms have "r \<in> set (star_rests k s)" by (rule in_set_butlastD)
  from star_rests_split[OF this] obtain p where p: "s = p @ r" "list_all (in_cls k) p" by blast
  from star_rests_length[OF assms] p have "p \<noteq> []" by auto
  with p show ?thesis by blast
qed

lemma ms_SeqD:
  assumes "x \<in> set (ms (Seq a b) st)"
  obtains y where "y \<in> set (ms a st)" and "x \<in> set (ms b y)"
  using assms by auto

lemma ms_frame:
  "(j, s', g') \<in> set (ms r (i, s, g)) \<Longrightarrow> n \<notin> gids r \<Longrightarrow> g' n = g n"
proof (induction r arbitrary: i s g j s' g')
  case (Seq r1 r2)
  from Seq.prems obtain j1 s1 g1 where
    a: "(j1, s1, g1) \<in> set (ms r1 (i, s, g))" and b: "(j, s', g') \<in> set (ms r2 (j1, s1, g1))"
    by auto
  from Seq.IH(1)[OF a] Seq.IH(2)[OF b] Seq.prems(2) show ?case by simp
next
  case (Group m r)
  then show ?case by auto
qed (auto split: option.splits if_splits)

lemma in_cls_Digit: "in_cls Digit = is_digit"
  by (rule ext) simp

lemma ms_group_plus:
  assumes "(j, s', g') \<in> set (ms (Group n (Plus k)) (i, s, g))"
  shows "\<exists>d. g' n = Some d \<and> d \<noteq> [] \<and> list_all (in_cls k) d"
proof -
  from assms obtain r where r: "r \<in> set (butlast (star_rests k s))"
    and j: "j = i + (length s - length r)" and g': "g' = g(n \<mapsto> take (j - i) s)"
    by auto
  from plus_rests_split[OF r] obtain p where p: "s = p @ r" "p \<noteq> []" "list_all (in_cls k) p"
    by blast
  with j g' have "g' n = Some p" by simp
  with p show ?thesis by blast
qed

lemma price_pattern_group2:
  assumes "(j, s', g') \<in> set (ms price_pattern (i, s, g))"
  shows "\<exists>d. g' 2 = Some d \<and> d \<noteq> [] \<and> list_all is_digit d"
proof -
  from assms obtain st1 where
    a: "(j, s', g') \<in> set (ms (Seq (Group 2 (Plus Digit)) (Seq (Star Space) (Group 3 currency))) st1)"
    unfolding price_pattern_def by (rule ms_SeqD)
  from a obtain st2 where
    b': "st2 \<in> set (ms (Group 2 (Plus Digit)) st1)" and
    c': "(j, s', g') \<in> set (ms (Seq (Star Space) (Group 3 currency)) st2)"
    by (rule ms_SeqD)
  obtain j2 s2 g2 where st2: "st2 = (j2, s2, g2)" by (cases st2)
  note b = b'[unfolded st2] and c = c'[unfolded st2]
  obtain i1 s1 g1 where st1: "st1 = (i1, s1, g1)" by (cases st1)
  from ms_group_plus[OF b[unfolded st1]] obtain d where
    d: "g2 2 = Some d" "d \<noteq> []" "list_all is_digit d"
    unfolding in_cls_Digit by blast
  have "g' 2 = g2 2"
    by (rule ms_frame[OF c]) (simp add: currency_def)
  with d show ?thesis by simp
qed

lemma price_only_pattern_group1:
  assumes "(j, s', g') \<in> set (ms price_only_pattern (i, s, g))"
  shows "\<exists>d. g' 1 = Some d \<and> d \<noteq> [] \<and> list_all is_digit d"
proof -
  from assms obtain st1 where
    a: "(j, s', g') \<in> set (ms (Seq (Group 1 (Plus Digit))
          (Seq (Star Space) (Seq (Group 2 currency) (Seq (Opt (Lit ''.'')) Eol)))) st1)"
    unfolding price_only_pattern_def by (rule ms_SeqD)
  from a obtain st2 where
    b': "st2 \<in> set (ms (Group 1 (Plus Digit)) st1)" and
    c': "(j, s', g') \<in> set (ms (Seq (Star Space) (Seq (Group 2 currency) (Seq (Opt (Lit ''.'')) Eol))) st2)"
    by (rule ms_SeqD)
  obtain j2 s2 g2 where st2: "st2 = (j2, s2, g2)" by (cases st2)
  note b = b'[unfolded st2] and c = c'[unfolded st2]
  obtain i1 s1 g1 where st1: "st1 = (i1, s1, g1)" by (cases st1)
  from ms_group_plus[OF b[unfolded st1]] obtain d where
    d: "g2 1 = Some d" "d \<noteq> []" "list_all is_digit d"
    unfolding in_cls_Digit by blast
  have "g' 1 = g2 1"
    by (rule ms_frame[OF c]) (simp add: currency_def)
  with d show ?thesis by simp
qed

lemma search_from_group2:
  "search_from price_pattern i s = Some m \<Longrightarrow> \<exists>d. m 2 = Some d \<and> d \<noteq> [] \<and> list_all is_digit d"
proof (induction s arbitrary: i)
  case Nil
  then obtain j s' rest where "ms price_pattern (i, [], Map.empty) = (j, s', m) # rest"
    by (auto split: list.splits)
  then have "(j, s', m) \<in> set (ms price_pattern (i, [], Map.empty))" by simp
  then show ?case by (rule price_pattern_group2)
next
  case (Cons c cs)
  show ?case
  proof (cases "ms price_pattern (i, c # cs, Map.empty)")
    case Nil
    with Cons show ?thesis by simp
  next
    case (Cons st rest)
    with Cons.prems obtain j s' where "st = (j, s', m)" by (cases st) auto
    with Cons have "(j, s', m) \<in> set (ms price_pattern (i, c # cs, Map.empty))" by simp
    then show ?thesis by (rule price_pattern_group2)
  qed
qed

lemma re_search_price_digits:
  "re_search price_pattern line = Some m \<Longrightarrow> \<exists>d. m 2 = Some d \<and> d \<noteq> [] \<and> list_all is_digit d"
  unfolding re_search_def by (rule search_from_group2)

lemma re_match_price_only_digits:
  assumes "re_match price_only_pattern line = Some m"
  shows "\<exists>d. m 1 = Some d \<and> d \<noteq> [] \<and> list_all is_digit d"
proof -
  from assms obtain j s' rest where
    "ms price_only_pattern (0, line, Map.empty) = (j, s', m) # rest"
    by (auto simp: re_match_def split: list.splits)
  then have "(j, s', m) \<in> set (ms price_only_pattern (0, line, Map.empty))" by simp
  then show ?thesis by (rule price_only_pattern_group1)
qed


section \<open>One step of the segmenter\<close>

lemma matched_iff: "matched x \<longleftrightarrow> x \<noteq> None"
  by (cases x) auto

lemma has_key_iff: "has_key x \<longleftrightarrow> x \<noteq> None"
  by (cases x) auto

lemma step_price_match:
  assumes "re_search price_pattern line = Some m" and "m 2 = Some d"
  shows "step (items, cur) line =
           Inr (if truthy cur then (items @ [cur\<lparr>price := Some (d @ '' L.E'')\<rparr>], empty_item)
                else (items, cur))"
  using assms by (simp add: step_def Let_def)

lemma step_price_only_match:
  assumes "re_search price_pattern line = None"
    and "re_match price_only_pattern line = Some m" and "m 1 = Some d"
  shows "step (items, cur) line =
           Inr (if truthy cur then (items @ [cur\<lparr>price := Some (d @ '' L.E'')\<rparr>], empty_item)
                else (items, cur))"
  using assms by (simp add: step_def Let_def)

lemma step_price_line:
  assumes "is_price_line line"
  shows "\<exists>d. d \<noteq> [] \<and> list_all is_digit d \<and>
           step (items, cur) line =
             Inr (if truthy cur then (items @ [cur\<lparr>price := Some (d @ '' L.E'')\<rparr>], empty_item)
                  else (items, cur))"
proof (cases "re_search price_pattern line")
  case (Some m)
  from re_search_price_digits[OF Some] obtain d where
    d: "m 2 = Some d" "d \<noteq> []" "list_all is_digit d" by blast
  from step_price_match[OF Some d(1)] d show ?thesis by blast
next
  case None
  with assms obtain m where m: "re_match price_only_pattern line = Some m"
    by (auto simp: is_price_line_def matched_iff)
  from re_match_price_only_digits[OF m] obtain d where
    d: "m 1 = Some d" "d \<noteq> []" "list_all is_digit d" by blast
  from step_price_only_match[OF None m d(1)] d show ?thesis by blast
qed

lemma step_fragment:
  assumes "\<not> is_price_line line"
  shows "step (items, cur) line =
           Inr (items,
                if has_key (name cur) \<and> \<not> has_key (price cur)
                then cur\<lparr>description := Some (get_or (description cur) [] @ '' '' @ line)\<rparr>
                else if str_lower line \<notin> set [''price'', ''l.e'', ''le'']
                then \<lparr>name = Some line, description = None, price = None\<rparr>
                else cur)"
  using assms by (simp add: step_def Let_def is_price_line_def)

lemma pending_ok_empty: "pending_ok A empty_item"
  by (simp add: pending_ok_def empty_item_def)

lemma step_invariant:
  assumes cur: "pending_ok A cur" and items: "\<forall>it \<in> set items. complete_item A it"
    and line: "line \<in> A"
  shows "\<exists>items' cur'. step (items, cur) line = Inr (items', cur') \<and> pending_ok A cur'
           \<and> (\<forall>it \<in> set items'. complete_item A it)
           \<and> length items' \<le> length items + (if is_price_line line then 1 else 0)"
proof (cases "is_price_line line")
  case True
  from step_price_line[OF True, of items cur] obtain d where
    d: "d \<noteq> []" "list_all is_digit d" and
    s: "step (items, cur) line =
          Inr (if truthy cur then (items @ [cur\<lparr>price := Some (d @ '' L.E'')\<rparr>], empty_item)
               else (items, cur))" by blast
  show ?thesis
  proof (cases "truthy cur")
    case t: True
    with cur obtain n where n: "name cur = Some n" "n \<in> A"
      by (auto simp: pending_ok_def)
    with d have "complete_item A (cur\<lparr>price := Some (d @ '' L.E'')\<rparr>)"
      by (auto simp: complete_item_def)
    with s t items True show ?thesis by (simp add: pending_ok_empty)
  next
    case False
    with s cur items True show ?thesis by simp
  qed
next
  case False
  note s = step_fragment[OF False, of items cur]
  have "pending_ok A (if has_key (name cur) \<and> \<not> has_key (price cur)
                then cur\<lparr>description := Some (get_or (description cur) [] @ '' '' @ line)\<rparr>
                else if str_lower line \<notin> set [''price'', ''l.e'', ''le'']
                then \<lparr>name = Some line, description = None, price = None\<rparr>
                else cur)"
    using cur line by (auto simp: pending_ok_def has_key_iff empty_item_def)
  with s items False show ?thesis by simp
qed

lemma seg_loop_invariant:
  assumes "pending_ok A cur" and "\<forall>it \<in> set items. complete_item A it" and "set ls \<subseteq> A"
  shows "\<exists>items' cur'. seg_loop ls (items, cur) = Inr (items', cur') \<and> pending_ok A cur'
           \<and> (\<forall>it \<in> set items'. complete_item A it)
           \<and> length items' \<le> length items + length (filter is_price_line ls)"
  using assms
proof (induction ls arbitrary: items cur)
  case Nil
  then show ?case by simp
next
  case (Cons l ls)
  from Cons.prems have l: "l \<in> A" and ls: "set ls \<subseteq> A" by auto
  from step_invariant[OF Cons.prems(1,2) l] obtain items1 cur1 where
    s: "step (items, cur) l = Inr (items1, cur1)" and c1: "pending_ok A cur1"
    and i1: "\<forall>it \<in> set items1. complete_item A it"
    and n1: "length items1 \<le> length items + (if is_price_line l then 1 else 0)" by blast
  from Cons.IH[OF c1 i1 ls] obtain items' cur' where
    r: "seg_loop ls (items1, cur1) = Inr (items', cur')" and c': "pending_ok A cur'"
    and i': "\<forall>it \<in> set items'. complete_item A it"
    and n': "length items' \<le> length items1 + length (filter is_price_line ls)" by blast
  from n1 n' have "length items' \<le> length items + length (filter is_price_line (l # ls))"
    by (simp split: if_splits)
  with s r c' i' show ?case by simp
qed


text \<open>The segmenter never raises: the digit group of either pattern takes part in every
  match.\<close>

lemma segment_total: "\<exists>items. segment lines = Inr items"
proof -
  have "\<exists>items' cur'. seg_loop lines ([], empty_item) = Inr (items', cur') \<and> pending_ok UNIV cur'
           \<and> (\<forall>it \<in> set items'. complete_item UNIV it)
           \<and> length items' \<le> length ([]::item list) + length (filter is_price_line lines)"
    by (rule seg_loop_invariant) (simp_all add: pending_ok_empty)
  then show ?thesis by (auto simp: segment_def)
qed


text \<open>The lines handed to the segmenter are never empty.\<close>

lemma body_lines_nonempty: "[] \<notin> set (body_lines body)"
  by (auto simp: body_lines_def)

section \<open>The claims about the segmenter\<close>

text \<open>C1: for every sequence of non-empty lines (the lines of a panel body are stripped
  and non-empty), the segmenter returns without raising, and every item it emits has a
  non-empty name, taken from the lines, and a non-empty price, digits followed by
  \<^verbatim>\<open>" L.E"\<close>; so have the rows built from the items. Items are emitted only when a price
  is attached: there are at most as many items as price lines, the pending item left at
  the end of the loop has no price, and the final flush adds nothing to what the loop
  emitted.\<close>

theorem emitted_items_complete:
  assumes "[] \<notin> set lines"
  shows "\<exists>items cur.
           seg_loop lines ([], empty_item) = Inr (items, cur) \<and> price cur = None
         \<and> segment lines = Inr items
         \<and> length items \<le> length (filter is_price_line lines)
         \<and> (\<forall>it \<in> set items. \<exists>n d.
               name it = Some n \<and> n \<noteq> [] \<and> n \<in> set lines
             \<and> price it = Some (d @ '' L.E'') \<and> d \<noteq> [] \<and> list_all is_digit d
             \<and> menu_row category_name it = [category_name, n, get_or (description it) [], d @ '' L.E''])"
proof -
  have "\<exists>items' cur'. seg_loop lines ([], empty_item) = Inr (items', cur')
           \<and> pending_ok (set lines) cur'
           \<and> (\<forall>it \<in> set items'. complete_item (set lines) it)
           \<and> length items' \<le> length ([]::item list) + length (filter is_price_line lines)"
    by (rule seg_loop_invariant) (simp_all add: pending_ok_empty)
  then obtain items cur where
    l: "seg_loop lines ([], empty_item) = Inr (items, cur)" and c: "pending_ok (set lines) cur"
    and i: "\<forall>it \<in> set items. complete_item (set lines) it"
    and n: "length items \<le> length (filter is_price_line lines)" by auto
  from c have p: "price cur = None" by (simp add: pending_ok_def)
  with l have s: "segment lines = Inr items" by (simp add: segment_def)
  have "\<exists>n d. name it = Some n \<and> n \<noteq> [] \<and> n \<in> set lines
             \<and> price it = Some (d @ '' L.E'') \<and> d \<noteq> [] \<and> list_all is_digit d
             \<and> menu_row category_name it = [category_name, n, get_or (description it) [], d @ '' L.E'']"
    if "it \<in> set items" for it
  proof -
    from i that obtain n d where
      nd: "name it = Some n" "n \<in> set lines" "price it = Some (d @ '' L.E'')" "d \<noteq> []"
          "list_all is_digit d"
      by (auto simp: complete_item_def)
    from nd(2) assms have "n \<noteq> []" by auto
    with nd show ?thesis by (simp add: menu_row_def)
  qed
  with l p s n show ?thesis by blast
qed

theorem emitted_items_complete_witness:
  "[] \<notin> set [''Soup'', ''150 L.E'', ''Tea'']
   \<and> segment [''Soup'', ''150 L.E'', ''Tea'']
       = Inr [\<lparr>name = Some ''Soup'', description = None, price = Some ''150 L.E''\<rparr>]
   \<and> (\<exists>cur. seg_loop [''Soup'', ''150 L.E'', ''Tea''] ([], empty_item)
               = Inr ([\<lparr>name = Some ''Soup'', description = None, price = Some ''150 L.E''\<rparr>], cur)
             \<and> price cur = None)"
proof -
  have h: "[] \<notin> set [''Soup'', ''150 L.E'', ''Tea'']" by simp
  have e: "segment [''Soup'', ''150 L.E'', ''Tea'']
       = Inr [\<lparr>name = Some ''Soup'', description = None, price = Some ''150 L.E''\<rparr>]"
    by code_simp
  from emitted_items_complete[OF h, of "[]"] obtain items cur where
    "seg_loop [''Soup'', ''150 L.E'', ''Tea''] ([], empty_item) = Inr (items, cur)"
    "price cur = None" "segment [''Soup'', ''150 L.E'', ''Tea''] = Inr items"
    by blast
  with e h show ?thesis by auto
qed


text \<open>C2, as the claim states it: the lines \<^verbatim>\<open>Soup\<close>, \<^verbatim>\<open>Salad\<close>, \<^verbatim>\<open>40 L.E\<close> would give one
  item named \<^verbatim>\<open>Salad\<close>. The code gives one item named \<^verbatim>\<open>Soup\<close>, with \<^verbatim>\<open>Salad\<close> in its
  description.\<close>

theorem second_name_overwrites_counterexample:
  "segment [''Soup'', ''Salad'', ''40 L.E'']
     = Inr [\<lparr>name = Some ''Soup'', description = Some '' Salad'', price = Some ''40 L.E''\<rparr>]
   \<and> name \<lparr>name = Some ''Soup'', description = Some '' Salad'', price = Some ''40 L.E''\<rparr>
       \<noteq> Some ''Salad''"
proof -
  have "segment [''Soup'', ''Salad'', ''40 L.E'']
     = Inr [\<lparr>name = Some ''Soup'', description = Some '' Salad'', price = Some ''40 L.E''\<rparr>]"
    by code_simp
  then show ?thesis by simp
qed

text \<open>C2, amended: a name line, a second line that is not a price line, then a price
  line give exactly one item; its name is the first line, and the second line is joined
  onto its description after a space. For \<^verbatim>\<open>Soup\<close>, \<^verbatim>\<open>Salad\<close>, \<^verbatim>\<open>40 L.E\<close> the item is named
  \<^verbatim>\<open>Soup\<close>, described \<^verbatim>\<open>" Salad"\<close> and priced \<^verbatim>\<open>40 L.E\<close>.\<close>

theorem second_line_joins_description:
  assumes "\<not> is_price_line a" and "str_lower a \<notin> set [''price'', ''l.e'', ''le'']"
    and "\<not> is_price_line b" and "is_price_line p"
  shows "\<exists>d. d \<noteq> [] \<and> list_all is_digit d
           \<and> segment [a, b, p] =
               Inr [\<lparr>name = Some a, description = Some ('' '' @ b), price = Some (d @ '' L.E'')\<rparr>]"
proof -
  let ?c1 = "\<lparr>name = Some a, description = None, price = None\<rparr>"
  let ?c2 = "\<lparr>name = Some a, description = Some ('' '' @ b), price = None\<rparr>"
  have s1: "step ([], empty_item) a = Inr ([], ?c1)"
    using assms(2) by (simp add: step_fragment[OF assms(1)] empty_item_def)
  have s2: "step ([], ?c1) b = Inr ([], ?c2)"
    by (simp add: step_fragment[OF assms(3)])
  from step_price_line[OF assms(4), of "[]" ?c2] obtain d where
    d: "d \<noteq> []" "list_all is_digit d" and
    s3: "step ([], ?c2) p = Inr ([?c2\<lparr>price := Some (d @ '' L.E'')\<rparr>], empty_item)"
    by (auto simp: empty_item_def)
  from s1 s2 s3 have "segment [a, b, p] =
      Inr [\<lparr>name = Some a, description = Some ('' '' @ b), price = Some (d @ '' L.E'')\<rparr>]"
    by (simp add: segment_def)
  with d show ?thesis by blast
qed


theorem second_line_joins_description_witness:
  "\<not> is_price_line ''Soup'' \<and> str_lower ''Soup'' \<notin> set [''price'', ''l.e'', ''le'']
   \<and> \<not> is_price_line ''Salad'' \<and> is_price_line ''40 L.E''
   \<and> (\<exists>d. d \<noteq> [] \<and> list_all is_digit d
          \<and> segment [''Soup'', ''Salad'', ''40 L.E''] =
              Inr [\<lparr>name = Some ''Soup'', description = Some '' Salad'',
                    price = Some (d @ '' L.E'')\<rparr>])"
proof -
  have a: "\<not> is_price_line ''Soup''" by code_simp
  have n: "str_lower ''Soup'' \<notin> set [''price'', ''l.e'', ''le'']" by code_simp
  have b: "\<not> is_price_line ''Salad''" by code_simp
  have p: "is_price_line ''40 L.E''" by code_simp
  from second_line_joins_description[OF a n b p] a n b p show ?thesis by simp
qed

text \<open>C3: the lines \<^verbatim>\<open>Grilled Chicken\<close>, \<^verbatim>\<open>Served with rice\<close>, \<^verbatim>\<open>120 L.E\<close> give exactly one
  item, with name \<^verbatim>\<open>Grilled Chicken\<close>, description \<^verbatim>\<open>" Served with rice"\<close> (the fragment
  joined after a space onto the empty description) and price \<^verbatim>\<open>120 L.E\<close>.\<close>

theorem grilled_chicken_example:
  "segment [''Grilled Chicken'', ''Served with rice'', ''120 L.E'']
     = Inr [\<lparr>name = Some ''Grilled Chicken'', description = Some '' Served with rice'',
             price = Some ''120 L.E''\<rparr>]"
  by code_simp

theorem grilled_chicken_example_witness:
  "(case segment [''Grilled Chicken'', ''Served with rice'', ''120 L.E''] of
      Inl e \<Rightarrow> []
    | Inr items \<Rightarrow> map (menu_row ''Mains'') items)
   = [[''Mains'', ''Grilled Chicken'', '' Served with rice'', ''120 L.E'']]"
  using grilled_chicken_example by (simp add: menu_row_def)

text \<open>C4, as the claim states it: a noise token would leave the pending item unchanged
  in every state. With the name \<^verbatim>\<open>Soup\<close> pending, the token \<^verbatim>\<open>le\<close> is joined onto the
  description.\<close>

theorem noise_after_name_counterexample:
  "str_lower ''le'' \<in> set [''price'', ''l.e'', ''le'']
   \<and> re_search price_pattern ''le'' = None
   \<and> re_match price_only_pattern ''le'' = None
   \<and> step ([], \<lparr>name = Some ''Soup'', description = None, price = None\<rparr>) ''le''
       = Inr ([], \<lparr>name = Some ''Soup'', description = Some '' le'', price = None\<rparr>)
   \<and> step ([], \<lparr>name = Some ''Soup'', description = None, price = None\<rparr>) ''le''
       \<noteq> Inr ([], \<lparr>name = Some ''Soup'', description = None, price = None\<rparr>)"
proof -
  have a: "str_lower ''le'' \<in> set [''price'', ''l.e'', ''le'']" by code_simp
  have b: "re_search price_pattern ''le'' = None" by code_simp
  have c: "re_match price_only_pattern ''le'' = None" by code_simp
  have d: "step ([], \<lparr>name = Some ''Soup'', description = None, price = None\<rparr>) ''le''
       = Inr ([], \<lparr>name = Some ''Soup'', description = Some '' le'', price = None\<rparr>)"
    by code_simp
  from a b c d show ?thesis by simp
qed

text \<open>C4, amended: a line that is a noise token (equal to \<^verbatim>\<open>price\<close>, \<^verbatim>\<open>l.e\<close> or \<^verbatim>\<open>le\<close>
  whatever its case, and matched by neither price pattern) emits nothing. It leaves the
  pending item unchanged when that item has no name (the empty one in particular) or
  already has a price; when the pending item has a name and no price, the token is joined
  onto its description like any other fragment.\<close>

theorem noise_token_step:
  assumes "str_lower line \<in> set [''price'', ''l.e'', ''le'']"
    and "re_search price_pattern line = None"
    and "re_match price_only_pattern line = None"
  shows "step (items, cur) line =
           Inr (items,
                if has_key (name cur) \<and> \<not> has_key (price cur)
                then cur\<lparr>description := Some (get_or (description cur) [] @ '' '' @ line)\<rparr>
                else cur)
       \<and> step (items, empty_item) line = Inr (items, empty_item)"
proof -
  from assms(2,3) have n: "\<not> is_price_line line" by (simp add: is_price_line_def)
  from assms(1) show ?thesis
    by (simp add: step_fragment[OF n] empty_item_def)
qed


theorem noise_token_step_witness:
  "str_lower ''L.E'' \<in> set [''price'', ''l.e'', ''le'']
   \<and> re_search price_pattern ''L.E'' = None
   \<and> re_match price_only_pattern ''L.E'' = None
   \<and> step ([], empty_item) ''L.E'' = Inr ([], empty_item)
   \<and> step ([], \<lparr>name = Some ''Soup'', description = None, price = None\<rparr>) ''L.E''
       = Inr ([], \<lparr>name = Some ''Soup'', description = Some '' L.E'', price = None\<rparr>)"
proof -
  have a: "str_lower ''L.E'' \<in> set [''price'', ''l.e'', ''le'']" by code_simp
  have b: "re_search price_pattern ''L.E'' = None" by code_simp
  have c: "re_match price_only_pattern ''L.E'' = None" by code_simp
  from noise_token_step[OF a b c, of "[]" "\<lparr>name = Some ''Soup'', description = None, price = None\<rparr>"]
       a b c
  show ?thesis by simp
qed

text \<open>C5: a price line that arrives while no item is pending is consumed: nothing is
  emitted and the pending item stays empty. So the sequence of that one line gives no
  item (\<^verbatim>\<open>150 L.E\<close> for one), and a sequence that starts with such a line gives what the
  rest of it gives.\<close>

theorem orphan_price_dropped:
  assumes "is_price_line line"
  shows "step (items, empty_item) line = Inr (items, empty_item)
       \<and> segment [line] = Inr []
       \<and> segment (line # rest) = segment rest"
proof -
  from step_price_line[OF assms, of items empty_item]
  have "step (items, empty_item) line = Inr (items, empty_item)" for items
    using step_price_line[OF assms, of items empty_item] by auto
  then show ?thesis by (simp add: segment_def)
qed


theorem orphan_price_dropped_witness:
  "is_price_line ''150 L.E''
   \<and> step ([], empty_item) ''150 L.E'' = Inr ([], empty_item)
   \<and> segment [''150 L.E''] = Inr []"
proof -
  have p: "is_price_line ''150 L.E''" by code_simp
  from orphan_price_dropped[OF p, of "[]" "[]"] p show ?thesis by simp
qed

text \<open>C10: a line in which the general price pattern is found anywhere is consumed whole
  as a price event. The amount is the non-empty run of digits of the match; when an item
  is pending, that item is emitted with the price \<^verbatim>\<open><digits> L.E\<close>, its name and
  description as they were, and the pending item becomes empty; when no item is pending,
  nothing changes. No other text of the line reaches a name or a description.\<close>

theorem price_line_consumed:
  assumes "re_search price_pattern line = Some m"
  shows "\<exists>d. m 2 = Some d \<and> d \<noteq> [] \<and> list_all is_digit d
           \<and> step (items, cur) line =
               Inr (if truthy cur
                    then (items @ [cur\<lparr>price := Some (d @ '' L.E'')\<rparr>], empty_item)
                    else (items, cur))"
proof -
  from re_search_price_digits[OF assms] obtain d where
    d: "m 2 = Some d" "d \<noteq> []" "list_all is_digit d" by blast
  from step_price_match[OF assms d(1)] d show ?thesis by blast
qed


theorem price_line_consumed_witness:
  "re_search price_pattern ''Chicken Soup Price: 40 LE today'' \<noteq> None
   \<and> step ([], \<lparr>name = Some ''Tea'', description = None, price = None\<rparr>)
          ''Chicken Soup Price: 40 LE today''
       = Inr ([\<lparr>name = Some ''Tea'', description = None, price = Some ''40 L.E''\<rparr>], empty_item)"
proof -
  have "map_option (\<lambda>m. m 2) (re_search price_pattern ''Chicken Soup Price: 40 LE today'')
          = Some (Some ''40'')"
    by code_simp
  then obtain m where m: "re_search price_pattern ''Chicken Soup Price: 40 LE today'' = Some m"
    and m2: "m 2 = Some ''40''" by auto
  from price_line_consumed[OF m, of "[]" "\<lparr>name = Some ''Tea'', description = None, price = None\<rparr>"]
       m m2
  show ?thesis by (auto simp: empty_item_def)
qed

section \<open>The claim about the JavaScript-heaviness detector\<close>

text \<open>C8: the detector answers true exactly when the page has more than 10 \<^verbatim>\<open>script\<close>
  elements or has no \<^verbatim>\<open>div\<close>, \<^verbatim>\<open>p\<close>, \<^verbatim>\<open>span\<close> or \<^verbatim>\<open>table\<close> element at all. A page with
  exactly 10 \<^verbatim>\<open>script\<close> elements and a \<^verbatim>\<open>div\<close> is not JavaScript-heavy.\<close>

theorem js_heavy_iff:
  "is_javascript_heavy soup \<longleftrightarrow>
     10 < length (find_all [''script''] soup)
     \<or> find_all [''div'', ''p'', ''span'', ''table''] soup = []"
  by (simp add: is_javascript_heavy_def Let_def)

theorem js_heavy_iff_witness:
  "length (find_all [''script''] ten_scripts_page) = 10
   \<and> find_all [''div'', ''p'', ''span'', ''table''] ten_scripts_page \<noteq> []
   \<and> \<not> is_javascript_heavy ten_scripts_page"
proof -
  have a: "length (find_all [''script''] ten_scripts_page) = 10" by code_simp
  have b: "find_all [''div'', ''p'', ''span'', ''table''] ten_scripts_page \<noteq> []" by code_simp
  from a b js_heavy_iff[of ten_scripts_page] show ?thesis by simp
qed

section \<open>The claims about the crawl\<close>

text \<open>The panels of a page never raise, whatever the page.\<close>

lemma scrape_panel_total: "\<exists>rows'. scrape_panel panel rows = Inr rows'"
proof (cases "find_class ''div'' ''vc_tta-panel-body'' panel")
  case None
  then show ?thesis by (simp add: scrape_panel_def)
next
  case (Some b)
  from segment_total[of "body_lines b"] obtain items where
    "segment (body_lines b) = Inr items" by blast
  with Some show ?thesis by (simp add: scrape_panel_def Let_def)
qed

lemma scrape_panels_total: "\<exists>rows'. scrape_panels panels rows = Inr rows'"
proof (induction panels arbitrary: rows)
  case Nil
  then show ?case by simp
next
  case (Cons p ps)
  from scrape_panel_total[of p rows] obtain r where "scrape_panel p rows = Inr r" by blast
  with Cons[of r] show ?case by simp
qed

text \<open>On the plain path a failed fetch ends the crawl at once: the call returns the rows
  it was given, after that one fetch; at the first page these are no rows.\<close>

lemma get_soup_failed:
  assumes "\<not> use_selenium" and "session_get w url = (r, w')" and "fetch_failed r"
  shows "get_soup session_get render use_selenium w url = (Inr None, w')"
  using assms by (cases r) (simp_all add: get_soup_def)


lemma failed_fetch_stops_crawl:
  assumes "\<not> use_selenium" and "session_get w url = (r, w')" and "fetch_failed r"
  shows "scrape_page session_get render use_selenium (Suc depth) (w, rows) url = Inr (w', rows)
       \<and> scrape_menu session_get render (Suc depth) w url use_selenium = Inr []"
proof -
  have "get_soup session_get render use_selenium w url = (Inr None, w')"
    using assms by (rule get_soup_failed)
  then show ?thesis by (simp add: scrape_menu_def)
qed

text \<open>The second page fails: the crawl returns the rows of the first page, after two
  fetches.\<close>

lemma later_page_failure_example:
  "scrape_page example_web failing_driver False 1000 (0, []) ''p1''
     = Inr (2, [[''Soups'', ''Lentil'', [], ''40 L.E'']])"
  by code_simp

text \<open>On the rendering path an exception of the driver leaves \<^verbatim>\<open>scrape_page\<close>, and with
  it \<^verbatim>\<open>scrape_menu\<close>.\<close>

lemma driver_exception_escapes:
  assumes "use_selenium" and "render w url = (Inl e, w')"
  shows "scrape_page session_get render use_selenium (Suc depth) (w, rows) url = Inl e
       \<and> scrape_menu session_get render (Suc depth) w url use_selenium = Inl e"
  using assms by (simp add: get_soup_def scrape_menu_def)

text \<open>C9: when the fetch of the first page fails, the crawl should return no rows and let
  no exception out. With the plain fetch it does: the unreachable site gives the empty
  list. With the rendering fetch the failure of the driver leaves \<^verbatim>\<open>scrape_menu\<close> as an
  exception.\<close>

theorem first_fetch_failure_by_path:
  "scrape_menu unreachable_web failing_driver 1000 0 ''p1'' False = Inr []
   \<and> scrape_menu unreachable_web failing_driver 1000 0 ''p1'' True = Inl WebDriverException"
proof -
  have a: "scrape_menu unreachable_web failing_driver 1000 0 ''p1'' False = Inr []"
    by code_simp
  have b: "scrape_menu unreachable_web failing_driver 1000 0 ''p1'' True = Inl WebDriverException"
    by code_simp
  from a b show ?thesis by simp
qed

section \<open>The claims about the crawlability score\<close>

text \<open>C6: the score is the sum of four independent contributions: 25 when
  \<^verbatim>\<open>has_robots\<close> holds, 15 when \<^verbatim>\<open>crawl_delays\<close> is non-empty, 30 when \<^verbatim>\<open>sitemaps\<close> is
  non-empty and 30 when the page is not JavaScript-heavy. Each term reads one input only,
  and there is no other term.\<close>

theorem score_is_sum_of_contributions:
  "calculate_crawlability_score has_robots crawl_delays sitemaps js_heavy =
     (if has_robots then 25 else 0) + (if crawl_delays \<noteq> [] then 15 else 0)
     + (if sitemaps \<noteq> [] then 30 else 0) + (if \<not> js_heavy then 30 else 0)"
  by (simp add: calculate_crawlability_score_def)

text \<open>C7: the score lies between 0 and 100 for every input, and it never decreases when
  one input alone goes from absent to present (robots file, crawl delays, sitemaps) or
  from JavaScript-heavy to not JavaScript-heavy, the other three inputs being fixed.\<close>

theorem score_bounded_and_monotone:
  "0 \<le> calculate_crawlability_score has_robots crawl_delays sitemaps js_heavy
   \<and> calculate_crawlability_score has_robots crawl_delays sitemaps js_heavy \<le> 100
   \<and> calculate_crawlability_score False crawl_delays sitemaps js_heavy
       \<le> calculate_crawlability_score True crawl_delays sitemaps js_heavy
   \<and> calculate_crawlability_score has_robots [] sitemaps js_heavy
       \<le> calculate_crawlability_score has_robots crawl_delays sitemaps js_heavy
   \<and> calculate_crawlability_score has_robots crawl_delays [] js_heavy
       \<le> calculate_crawlability_score has_robots crawl_delays sitemaps js_heavy
   \<and> calculate_crawlability_score has_robots crawl_delays sitemaps True
       \<le> calculate_crawlability_score has_robots crawl_delays sitemaps False"
  by (simp add: calculate_crawlability_score_def)

end
